theory Spec2Isabelle
  imports Main "HOL-Library.Sublist"
begin

section \<open>The provider SDK and the local file system as an environment\<close>

text \<open>
  The photo booth of \<^verbatim>\<open>EGL314proj.py\<close> talks to Google Drive through pydrive2 and to
  the local disk through \<^verbatim>\<open>os.path\<close>. Neither is part of the program, so both are
  parameters of the model: a \<open>world\<close> says, for every call and every history of earlier
  calls, whether the call raises and what it returns. The history (the list of SDK calls
  issued so far, oldest first) is threaded through every function, so a remote service
  whose answers change after a folder was created, or after the fifth request, is one
  particular \<open>world\<close>. All exceptions of the model are instances of Python's
  \<^verbatim>\<open>Exception\<close>, the class every handler of the program catches.
\<close>

datatype exn = Exception string

datatype drive_handle = GoogleDrive

text \<open>
  The two dictionary literals the program passes to \<^verbatim>\<open>drive.CreateFile\<close>:
  \<^verbatim>\<open>{'title': t, 'parents': [{'id': i}]}\<close> (the id is whatever folder resolution
  returned, possibly \<^verbatim>\<open>None\<close>) and \<^verbatim>\<open>{'title': t, 'mimeType': m}\<close>.
\<close>

datatype file_metadata =
    Upload_metadata string "string option list"
  | Folder_metadata string string

datatype sdk_call =
    GoogleAuth
  | LoadCredentialsFile string
  | LocalWebserverAuth
  | Refresh
  | Authorize
  | SaveCredentialsFile string
  | New_GoogleDrive
  | ListFile_GetList string
  | CreateFile file_metadata
  | SetContentFile string
  | Upload
  | InsertPermission "(string \<times> string) list"

record world =
  raises :: "sdk_call list \<Rightarrow> sdk_call \<Rightarrow> exn option"
  path_exists :: "sdk_call list \<Rightarrow> string \<Rightarrow> bool"
  credentials_is_None :: "sdk_call list \<Rightarrow> bool"
  access_token_expired :: "sdk_call list \<Rightarrow> bool"
  GetList_result :: "sdk_call list \<Rightarrow> (string \<times> string) list list"
  file_item :: "sdk_call list \<Rightarrow> string \<Rightarrow> string option"

text \<open>
  \<open>raises w h c\<close> is the exception that call \<open>c\<close>, issued after history \<open>h\<close>, raises
  (\<open>None\<close>: it returns). \<open>path_exists w h p\<close> is \<^verbatim>\<open>os.path.exists(p)\<close> at that
  moment. \<open>GetList_result w h\<close> is the list a \<^verbatim>\<open>ListFile(..).GetList()\<close> issued after
  \<open>h\<close> returns, each entry a dictionary. \<open>file_item w h k\<close> is \<^verbatim>\<open>file[k]\<close> of the file
  object the program holds after \<open>h\<close> (\<open>None\<close>: \<^verbatim>\<open>KeyError\<close>).

  \<open>do_calls\<close> is a straight-line sequence of SDK calls inside one \<^verbatim>\<open>try\<close> block: the
  first call that raises ends the sequence, and the calls after it are never issued.
\<close>

fun do_calls :: "world \<Rightarrow> sdk_call list \<Rightarrow> sdk_call list \<Rightarrow> exn option \<times> sdk_call list" where
  "do_calls w [] h = (None, h)"
| "do_calls w (c # cs) h =
     (case raises w h c of
        Some e \<Rightarrow> (Some e, h @ [c])
      | None \<Rightarrow> do_calls w cs (h @ [c]))"

section \<open>DriveManager\<close>

record drive_manager =
  drive :: "drive_handle option"
  authenticated :: bool

text \<open>
  The inner \<^verbatim>\<open>try\<close> of \<^verbatim>\<open>_initialize_drive\<close> (lines 36-43): the credentials file is
  loaded when it exists, and an exception of the load is printed and dropped.
\<close>

definition load_credentials :: "world \<Rightarrow> sdk_call list \<Rightarrow> sdk_call list" where
  "load_credentials w h =
     (if path_exists w h ''mycreds.txt''
      then (case raises w h (LoadCredentialsFile ''mycreds.txt'') of
              Some e \<Rightarrow> h @ [LoadCredentialsFile ''mycreds.txt'']
            | None \<Rightarrow> h @ [LoadCredentialsFile ''mycreds.txt''])
      else h)"

text \<open>Lines 47-54: which authentication call the state of the credentials selects.\<close>

definition authenticate :: "world \<Rightarrow> sdk_call list \<Rightarrow> sdk_call" where
  "authenticate w h =
     (if credentials_is_None w h then LocalWebserverAuth
      else if access_token_expired w h then Refresh
      else Authorize)"

text \<open>The body of the outer \<^verbatim>\<open>try\<close> (lines 33-61): the exception it ends with, if any.\<close>

definition initialize_drive_try :: "world \<Rightarrow> sdk_call list \<Rightarrow> exn option \<times> sdk_call list" where
  "initialize_drive_try w h =
     (case raises w h GoogleAuth of
        Some e \<Rightarrow> (Some e, h @ [GoogleAuth])
      | None \<Rightarrow>
          (let h1 = load_credentials w (h @ [GoogleAuth])
           in do_calls w [authenticate w h1, SaveCredentialsFile ''mycreds.txt'', New_GoogleDrive] h1))"

definition initialize_drive ::
  "world \<Rightarrow> drive_manager \<times> sdk_call list \<Rightarrow> drive_manager \<times> sdk_call list" where
  "initialize_drive w = (\<lambda>(dm, h).
     (case initialize_drive_try w h of
        (None, h') \<Rightarrow> (dm\<lparr>drive := Some GoogleDrive, authenticated := True\<rparr>, h')
      | (Some e, h') \<Rightarrow> (dm\<lparr>drive := None, authenticated := False\<rparr>, h')))"

definition get_drive ::
  "world \<Rightarrow> drive_manager \<times> sdk_call list \<Rightarrow> drive_handle option \<times> drive_manager \<times> sdk_call list" where
  "get_drive w = (\<lambda>(dm, h).
     (case (if \<not> authenticated dm \<or> drive dm = None then initialize_drive w (dm, h) else (dm, h)) of
        (dm', h') \<Rightarrow> (drive dm', dm', h')))"

definition is_connected :: "drive_manager \<Rightarrow> bool" where
  "is_connected dm = (authenticated dm \<and> drive dm \<noteq> None)"

text \<open>\<^verbatim>\<open>DriveManager.__init__\<close>, lines 26-28.\<close>

definition DriveManager_init ::
  "world \<Rightarrow> drive_manager \<times> sdk_call list \<Rightarrow> drive_manager \<times> sdk_call list" where
  "DriveManager_init w = (\<lambda>(dm, h).
     (if \<not> authenticated dm then initialize_drive w (dm, h) else (dm, h)))"

section \<open>AsyncUploader: folder resolution and the two upload routines\<close>

text \<open>\<^verbatim>\<open>os.path.basename\<close> of \<^verbatim>\<open>posixpath\<close>: what follows the last slash.\<close>

definition basename :: "string \<Rightarrow> string" where
  "basename p = rev (takeWhile (\<lambda>c. c \<noteq> CHR ''/'') (rev p))"

definition folder_query :: string where
  "folder_query =
     ''title='PhotoBooth' and mimeType='application/vnd.google-apps.folder' and trashed=false''"

definition folder_metadata :: file_metadata where
  "folder_metadata = Folder_metadata ''PhotoBooth'' ''application/vnd.google-apps.folder''"

text \<open>
  \<^verbatim>\<open>_get_or_create_folder\<close>, lines 174-199. Every exception of its body, the
  \<^verbatim>\<open>KeyError\<close> of a missing \<^verbatim>\<open>'id'\<close> included, is caught by its own handler and
  turned into the result \<^verbatim>\<open>None\<close>.
\<close>

definition get_or_create_folder ::
  "world \<Rightarrow> drive_manager \<times> sdk_call list \<Rightarrow> string option \<times> drive_manager \<times> sdk_call list" where
  "get_or_create_folder w = (\<lambda>(dm, h).
     (case get_drive w (dm, h) of (d, dm1, h1) \<Rightarrow>
        (if d = None then (None, dm1, h1)
         else (case raises w h1 (ListFile_GetList folder_query) of
                 Some e \<Rightarrow> (None, dm1, h1 @ [ListFile_GetList folder_query])
               | None \<Rightarrow>
                   (case GetList_result w h1 of
                      f # fs \<Rightarrow> (map_of f ''id'', dm1, h1 @ [ListFile_GetList folder_query])
                    | [] \<Rightarrow>
                        (case do_calls w [CreateFile folder_metadata, Upload]
                                (h1 @ [ListFile_GetList folder_query]) of
                           (Some e, h3) \<Rightarrow> (None, dm1, h3)
                         | (None, h3) \<Rightarrow> (file_item w h3 ''id'', dm1, h3)))))))"

definition anyone_reader :: "(string \<times> string) list" where
  "anyone_reader = [(''type'', ''anyone''), (''value'', ''anyone''), (''role'', ''reader'')]"

text \<open>
  \<^verbatim>\<open>upload_and_get_link\<close>, lines 106-140. The folder id goes into the metadata as it
  comes back from folder resolution; the routine does not look at it.
\<close>

definition upload_and_get_link ::
  "world \<Rightarrow> string \<Rightarrow> drive_manager \<times> sdk_call list \<Rightarrow> string option \<times> drive_manager \<times> sdk_call list" where
  "upload_and_get_link w file_path = (\<lambda>(dm, h).
     (case get_drive w (dm, h) of (d, dm1, h1) \<Rightarrow>
        (if d = None then (None, dm1, h1)
         else if \<not> path_exists w h1 file_path then (None, dm1, h1)
         else (case get_or_create_folder w (dm1, h1) of (folder_id, dm2, h2) \<Rightarrow>
                 (case do_calls w
                         [CreateFile (Upload_metadata (basename file_path) [folder_id]),
                          SetContentFile file_path, Upload, InsertPermission anyone_reader] h2 of
                    (Some e, h3) \<Rightarrow> (None, dm2, h3)
                  | (None, h3) \<Rightarrow> (file_item w h3 ''alternateLink'', dm2, h3))))))"

text \<open>\<^verbatim>\<open>_upload_file\<close>, lines 143-172: the same steps without the permission and the link.\<close>

definition upload_file ::
  "world \<Rightarrow> string \<Rightarrow> drive_manager \<times> sdk_call list \<Rightarrow> bool \<times> drive_manager \<times> sdk_call list" where
  "upload_file w file_path = (\<lambda>(dm, h).
     (case get_drive w (dm, h) of (d, dm1, h1) \<Rightarrow>
        (if d = None then (False, dm1, h1)
         else if \<not> path_exists w h1 file_path then (False, dm1, h1)
         else (case get_or_create_folder w (dm1, h1) of (folder_id, dm2, h2) \<Rightarrow>
                 (case do_calls w
                         [CreateFile (Upload_metadata (basename file_path) [folder_id]),
                          SetContentFile file_path, Upload] h2 of
                    (Some e, h3) \<Rightarrow> (False, dm2, h3)
                  | (None, h3) \<Rightarrow> (file_item w h3 ''title'' \<noteq> None, dm2, h3))))))"

section \<open>AsyncUploader: the queue and its worker thread\<close>

text \<open>
  The queue holds paths and the poison pill \<^verbatim>\<open>None\<close>. \<^verbatim>\<open>queue.Queue\<close> makes
  \<^verbatim>\<open>put\<close> and \<^verbatim>\<open>get\<close> atomic, so the two threads are modelled by interleaving: the
  main thread's calls and the worker's steps are the actions of a schedule. The worker
  is at one of three points of its loop body (line 96, line 99, line 100) or has left the
  loop. \<open>trace\<close> records what the worker did.
\<close>

datatype worker_pc = At_get | At_upload_file string | At_task_done | Exited

datatype event =
    Empty_after nat
  | Got "string option"
  | Called_upload_file string bool
  | Task_done

record uploader =
  upload_queue :: "string option list"
  worker :: worker_pc
  manager :: drive_manager
  history :: "sdk_call list"
  trace :: "event list"

text \<open>
  \<^verbatim>\<open>AsyncUploader.__init__\<close>, lines 80-84, with \<^verbatim>\<open>start_upload_worker\<close>: a new
  uploader has no thread, so one is started.
\<close>

definition AsyncUploader_init :: "world \<Rightarrow> drive_manager \<times> sdk_call list \<Rightarrow> uploader" where
  "AsyncUploader_init w = (\<lambda>(dm, h).
     (case DriveManager_init w (dm, h) of (dm', h') \<Rightarrow>
        \<lparr>upload_queue = [], worker = At_get, manager = dm', history = h', trace = []\<rparr>))"

text \<open>
  One step of \<^verbatim>\<open>_upload_worker\<close>, lines 92-104. \<^verbatim>\<open>get(timeout=1)\<close> on an empty queue
  blocks for the timeout and raises \<^verbatim>\<open>queue.Empty\<close>, and the loop continues.
  \<^verbatim>\<open>_upload_file\<close> catches every exception itself and each \<^verbatim>\<open>task_done\<close> follows a
  \<^verbatim>\<open>get\<close>, so the last handler of the loop (line 103) has nothing to catch.
\<close>

definition worker_step :: "world \<Rightarrow> uploader \<Rightarrow> uploader" where
  "worker_step w s =
     (case worker s of
        At_get \<Rightarrow>
          (case upload_queue s of
             [] \<Rightarrow> s\<lparr>trace := trace s @ [Empty_after 1]\<rparr>
           | None # q \<Rightarrow> s\<lparr>upload_queue := q, worker := Exited, trace := trace s @ [Got None]\<rparr>
           | Some p # q \<Rightarrow>
               s\<lparr>upload_queue := q, worker := At_upload_file p, trace := trace s @ [Got (Some p)]\<rparr>)
      | At_upload_file p \<Rightarrow>
          (case upload_file w p (manager s, history s) of (ok, dm, h) \<Rightarrow>
             s\<lparr>worker := At_task_done, manager := dm, history := h,
               trace := trace s @ [Called_upload_file p ok]\<rparr>)
      | At_task_done \<Rightarrow> s\<lparr>worker := At_get, trace := trace s @ [Task_done]\<rparr>
      | Exited \<Rightarrow> s)"

text \<open>\<^verbatim>\<open>queue_upload\<close>, lines 201-208.\<close>

definition queue_upload :: "string \<Rightarrow> uploader \<Rightarrow> uploader" where
  "queue_upload file_path s =
     (if \<not> is_connected (manager s) then s
      else s\<lparr>upload_queue := upload_queue s @ [Some file_path]\<rparr>)"

text \<open>
  \<^verbatim>\<open>stop\<close>, lines 210-214. \<^verbatim>\<open>join(timeout=5)\<close> returns when the worker has left its
  loop or when the five seconds are over, whichever comes first; meanwhile only the
  worker runs. The number of steps the worker manages in that time is the parameter
  \<open>k\<close>.
\<close>

fun join :: "world \<Rightarrow> nat \<Rightarrow> uploader \<Rightarrow> uploader" where
  "join w 0 s = s"
| "join w (Suc k) s = (if worker s = Exited then s else join w k (worker_step w s))"

definition stop :: "world \<Rightarrow> nat \<Rightarrow> uploader \<Rightarrow> uploader" where
  "stop w k s = join w k (s\<lparr>upload_queue := upload_queue s @ [None]\<rparr>)"

datatype action = Queue_upload string | Stop nat | Worker_step

fun do_action :: "world \<Rightarrow> action \<Rightarrow> uploader \<Rightarrow> uploader" where
  "do_action w (Queue_upload p) s = queue_upload p s"
| "do_action w (Stop k) s = stop w k s"
| "do_action w Worker_step s = worker_step w s"

fun run :: "world \<Rightarrow> action list \<Rightarrow> uploader \<Rightarrow> uploader" where
  "run w [] s = s"
| "run w (a # as) s = run w as (do_action w a s)"

text \<open>The arguments of the calls of \<^verbatim>\<open>_upload_file\<close>, in the order of the calls.\<close>

fun uploaded_paths :: "event list \<Rightarrow> string list" where
  "uploaded_paths [] = []"
| "uploaded_paths (Called_upload_file p ok # es) = p # uploaded_paths es"
| "uploaded_paths (e # es) = uploaded_paths es"

fun enqueued_paths :: "action list \<Rightarrow> string list" where
  "enqueued_paths [] = []"
| "enqueued_paths (Queue_upload p # as) = p # enqueued_paths as"
| "enqueued_paths (a # as) = enqueued_paths as"

fun is_stop :: "action \<Rightarrow> bool" where
  "is_stop (Stop k) = True"
| "is_stop a = False"

text \<open>
  What the worker still has to upload before it meets a poison pill: the path it holds,
  then the paths in the queue up to the first \<^verbatim>\<open>None\<close>.
\<close>

fun is_path :: "string option \<Rightarrow> bool" where
  "is_path None = False"
| "is_path (Some p) = True"

definition in_flight :: "uploader \<Rightarrow> string list" where
  "in_flight s = (case worker s of At_upload_file p \<Rightarrow> [p] | _ \<Rightarrow> [])"

definition pending :: "uploader \<Rightarrow> string list" where
  "pending s =
     (if worker s = Exited then []
      else in_flight s @ map the (takeWhile is_path (upload_queue s)))"

text \<open>A poison pill is on its way, or the worker has already met one.\<close>

definition stopping :: "uploader \<Rightarrow> bool" where
  "stopping s = (worker s = Exited \<or> None \<in> set (upload_queue s))"

text \<open>The number of steps the worker needs to empty a queue of paths.\<close>

definition work :: "uploader \<Rightarrow> nat" where
  "work s =
     3 * length (upload_queue s) +
     (case worker s of At_get \<Rightarrow> 0 | At_upload_file p \<Rightarrow> 2 | At_task_done \<Rightarrow> 1 | Exited \<Rightarrow> 0)"

section \<open>PhotoBoothPython: the image files\<close>































section \<open>Concrete worlds to compute with\<close>

text \<open>
  \<open>world_ok\<close>: every call succeeds, every file exists, the credentials are loaded and
  fresh, the PhotoBooth folder exists with id \<open>F1\<close>, and an uploaded file has a link.
  Each of the others differs from it in one point: in \<open>world_no_listing\<close> listing the
  folders fails, in \<open>world_bad_creds\<close> the stored credentials cannot be loaded, in
  \<open>world_no_permission\<close> granting the permission fails, in \<open>world_no_auth\<close>
  \<^verbatim>\<open>Authorize\<close> fails, and in \<open>world_no_file\<close> no file exists on the disk.
  \<open>lib_ok\<close>: the camera delivers a frame and no library call fails. \<open>idle_uploader\<close>: a
  connected uploader with an empty queue whose worker waits at \<^verbatim>\<open>get\<close>.
\<close>

definition world_ok :: world where
  "world_ok =
     \<lparr>raises = (\<lambda>h c. None),
      path_exists = (\<lambda>h p. True),
      credentials_is_None = (\<lambda>h. False),
      access_token_expired = (\<lambda>h. False),
      GetList_result = (\<lambda>h. [[(''id'', ''F1''), (''title'', ''PhotoBooth'')]]),
      file_item = (\<lambda>h k. Some (''https://drive.example/'' @ k))\<rparr>"


definition world_bad_creds :: world where
  "world_bad_creds =
     world_ok\<lparr>raises := (\<lambda>h c. case c of
                             LoadCredentialsFile f \<Rightarrow> Some (Exception ''InvalidCredentialsError'')
                           | _ \<Rightarrow> None),
              credentials_is_None := (\<lambda>h. True)\<rparr>"

definition connected :: drive_manager where
  "connected = \<lparr>drive = Some GoogleDrive, authenticated = True\<rparr>"

definition disconnected :: drive_manager where
  "disconnected = \<lparr>drive = None, authenticated = False\<rparr>"



definition world_no_auth :: world where
  "world_no_auth =
     world_ok\<lparr>raises := (\<lambda>h c. case c of
                             Authorize \<Rightarrow> Some (Exception ''AuthenticationError'')
                           | _ \<Rightarrow> None)\<rparr>"

definition world_no_file :: world where
  "world_no_file = world_ok\<lparr>path_exists := (\<lambda>h p. False)\<rparr>"

definition idle_uploader :: uploader where
  "idle_uploader =
     \<lparr>upload_queue = [], worker = At_get, manager = connected, history = [], trace = []\<rparr>"

section \<open>Verification\<close>


subsection \<open>Sequences of SDK calls\<close>


lemma do_calls_None_iff:
  "fst (do_calls w cs h) = None \<longleftrightarrow> (\<forall>i<length cs. raises w (h @ take i cs) (cs ! i) = None)"
proof (induction cs arbitrary: h)
  case Nil
  then show ?case by simp
next
  case (Cons c cs)
  show ?case
  proof (cases "raises w h c")
    case None
    have "(\<forall>i<length (c # cs). raises w (h @ take i (c # cs)) ((c # cs) ! i) = None)
      \<longleftrightarrow> (\<forall>i<length cs. raises w ((h @ [c]) @ take i cs) (cs ! i) = None)"
      using None by (auto simp: less_Suc_eq_0_disj)
    with None Cons.IH [of "h @ [c]"] show ?thesis by simp
  next
    case (Some e)
    then show ?thesis by auto
  qed
qed

lemma do_calls_None_history:
  "fst (do_calls w cs h) = None \<Longrightarrow> snd (do_calls w cs h) = h @ cs"
  by (induction cs arbitrary: h) (auto split: option.splits)

subsection \<open>DriveManager\<close>

text \<open>
  A connected manager hands out its handle without touching the SDK; initialization ends
  either with handle and flag set or with both cleared; a handle that was handed out
  means the manager is connected.
\<close>

lemma get_drive_connected:
  "is_connected dm \<Longrightarrow> get_drive w (dm, h) = (drive dm, dm, h)"
  by (auto simp: get_drive_def is_connected_def)

lemma initialize_drive_cases:
  "initialize_drive w (dm, h) = (dm', h') \<Longrightarrow>
     (drive dm' = Some GoogleDrive \<and> authenticated dm') \<or> (drive dm' = None \<and> \<not> authenticated dm')"
  by (auto simp: initialize_drive_def split: prod.splits option.splits)

lemma get_drive_Some_connected:
  "get_drive w (dm, h) = (Some d, dm1, h1) \<Longrightarrow> is_connected dm1"
  by (auto simp: get_drive_def is_connected_def split: if_splits prod.splits dest: initialize_drive_cases)

lemma get_drive_Some_eq:
  "get_drive w (dm, h) = (Some d, dm1, h1) \<Longrightarrow> get_drive w (dm1, h') = (Some d, dm1, h')"
proof -
  assume g: "get_drive w (dm, h) = (Some d, dm1, h1)"
  then have c: "is_connected dm1" by (rule get_drive_Some_connected)
  from g have "drive dm1 = Some d"
    by (auto simp: get_drive_def split: if_splits prod.splits)
  with get_drive_connected [OF c, of w h'] show ?thesis by simp
qed

lemma load_credentials_cases:
  "load_credentials w h = h \<or> load_credentials w h = h @ [LoadCredentialsFile ''mycreds.txt'']"
  by (simp add: load_credentials_def split: option.splits)

text \<open>
  Claim C6, as the program has it. \<open>initialize_drive\<close>, \<open>get_drive\<close> and \<open>is_connected\<close>
  are total functions with no exceptional result, because the handler of line 63 catches
  every exception of the body. Let \<open>hs\<close> be the SDK calls that one run of
  \<^verbatim>\<open>_initialize_drive\<close> issues. If the call at any position \<open>i\<close> of \<open>hs\<close> raised when it
  was issued, and that call is not the loading of the credentials file, then afterwards
  the handle is absent, the flag is false and \<open>is_connected\<close> is false. The loading of the
  credentials file is excluded because its exception is caught by the inner handler of
  line 42 and initialization goes on.
\<close>

theorem initialize_drive_exception:
  assumes "initialize_drive w (dm, h) = (dm', h @ hs)"
    and "i < length hs"
    and "raises w (h @ take i hs) (hs ! i) = Some e"
    and "hs ! i \<noteq> LoadCredentialsFile ''mycreds.txt''"
  shows "drive dm' = None \<and> \<not> authenticated dm' \<and> \<not> is_connected dm'"
proof (cases "fst (initialize_drive_try w h)")
  case (Some e')
  with assms(1) show ?thesis
    by (auto simp: initialize_drive_def is_connected_def split: prod.splits)
next
  case None
  then have ga: "raises w h GoogleAuth = None"
    by (auto simp: initialize_drive_try_def split: option.splits)
  define h1 where "h1 = load_credentials w (h @ [GoogleAuth])"
  define cs where "cs = [authenticate w h1, SaveCredentialsFile ''mycreds.txt'', New_GoogleDrive]"
  from None ga have dn: "fst (do_calls w cs h1) = None"
    by (simp add: initialize_drive_try_def h1_def cs_def Let_def del: do_calls.simps)
  then have all: "\<forall>j<3. raises w (h1 @ take j cs) (cs ! j) = None"
    using do_calls_None_iff [of w cs h1] by (simp add: cs_def)
  from all have a0: "raises w h1 (authenticate w h1) = None"
    by (auto simp: cs_def dest: spec [of _ 0])
  from all have a1: "raises w (h1 @ [authenticate w h1]) (SaveCredentialsFile ''mycreds.txt'') = None"
    by (auto simp: cs_def dest: spec [of _ 1])
  from all have a2: "raises w (h1 @ [authenticate w h1, SaveCredentialsFile ''mycreds.txt'']) New_GoogleDrive = None"
    by (auto simp: cs_def dest: spec [of _ 2])
  from dn have "snd (do_calls w cs h1) = h1 @ cs" by (rule do_calls_None_history)
  with ga have "snd (initialize_drive_try w h) = h1 @ cs"
    by (simp add: initialize_drive_try_def h1_def cs_def Let_def del: do_calls.simps)
  with None assms(1) have hs: "h @ hs = h1 @ cs"
    by (auto simp: initialize_drive_def split: prod.splits)
  consider (noload) "h1 = h @ [GoogleAuth]" | (load) "h1 = h @ [GoogleAuth, LoadCredentialsFile ''mycreds.txt'']"
    using load_credentials_cases [of w "h @ [GoogleAuth]"] by (auto simp: h1_def)
  then have False
  proof cases
    case noload
    with hs have hs': "hs = GoogleAuth # cs" by simp
    from assms(2) hs' have "i = 0 \<or> i = 1 \<or> i = 2 \<or> i = 3" by (auto simp: cs_def)
    then show False
      using assms(3) ga a0 a1 a2 noload hs'
      by (auto simp: cs_def)
  next
    case load
    with hs have hs': "hs = GoogleAuth # LoadCredentialsFile ''mycreds.txt'' # cs" by simp
    from assms(2) hs' have "i = 0 \<or> i = 1 \<or> i = 2 \<or> i = 3 \<or> i = 4" by (auto simp: cs_def)
    then show False
      using assms(3,4) ga a0 a1 a2 load hs'
      by (auto simp: cs_def)
  qed
  then show ?thesis ..
qed

text \<open>
  Claim C6, an instance: the stored credentials load, the token is fresh, and
  \<^verbatim>\<open>Authorize\<close> raises. The manager is not connected afterwards.
\<close>

theorem initialize_drive_exception_witness:
  "raises world_no_auth [GoogleAuth, LoadCredentialsFile ''mycreds.txt''] Authorize =
     Some (Exception ''AuthenticationError'') \<and>
   \<not> is_connected (fst (initialize_drive world_no_auth (disconnected, [])))"
proof -
  have i: "initialize_drive world_no_auth (disconnected, []) =
      (disconnected, [] @ [GoogleAuth, LoadCredentialsFile ''mycreds.txt'', Authorize])"
    by (simp add: world_no_auth_def world_ok_def disconnected_def initialize_drive_def
        initialize_drive_try_def load_credentials_def authenticate_def)
  have r: "raises world_no_auth [GoogleAuth, LoadCredentialsFile ''mycreds.txt''] Authorize =
     Some (Exception ''AuthenticationError'')"
    by (simp add: world_no_auth_def world_ok_def)
  have "\<not> is_connected disconnected"
    using initialize_drive_exception [OF i, of 2 "Exception ''AuthenticationError''"] r by simp
  with i r show ?thesis by simp
qed

text \<open>
  Claim C6 as the specification words it does not hold for an exception of
  \<^verbatim>\<open>LoadCredentialsFile\<close>: the SDK raises during initialization, the exception is caught,
  the interactive authentication runs, and the manager ends connected.
\<close>

theorem load_failure_still_connects:
  "raises world_bad_creds [GoogleAuth] (LoadCredentialsFile ''mycreds.txt'') =
     Some (Exception ''InvalidCredentialsError'') \<and>
   initialize_drive world_bad_creds (disconnected, []) =
     (connected, [GoogleAuth, LoadCredentialsFile ''mycreds.txt'', LocalWebserverAuth,
                  SaveCredentialsFile ''mycreds.txt'', New_GoogleDrive]) \<and>
   is_connected connected"
  by (simp add: world_bad_creds_def world_ok_def connected_def disconnected_def initialize_drive_def
      initialize_drive_try_def load_credentials_def authenticate_def is_connected_def)

subsection \<open>Folder resolution and upload-and-share\<close>

text \<open>
  Claim C7. The session has a handle, and the remote service answers the folder query
  with a non-empty list whose first entry has the id \<open>fid\<close>, both at the first call of
  \<^verbatim>\<open>_get_or_create_folder\<close> and at the next one. Then both calls return \<open>fid\<close>, and each
  adds exactly one call to the history, the listing: no \<^verbatim>\<open>CreateFile\<close> and no
  \<^verbatim>\<open>Upload\<close> is issued.
\<close>

theorem folder_resolution_twice:
  assumes "get_drive w (dm, h) = (Some d, dm1, h1)"
    and "raises w h1 (ListFile_GetList folder_query) = None"
    and "GetList_result w h1 = f # fs"
    and "map_of f ''id'' = Some fid"
    and "raises w (h1 @ [ListFile_GetList folder_query]) (ListFile_GetList folder_query) = None"
    and "GetList_result w (h1 @ [ListFile_GetList folder_query]) = f' # fs'"
    and "map_of f' ''id'' = Some fid"
  shows "get_or_create_folder w (dm, h) = (Some fid, dm1, h1 @ [ListFile_GetList folder_query]) \<and>
         get_or_create_folder w (dm1, h1 @ [ListFile_GetList folder_query]) =
           (Some fid, dm1, h1 @ [ListFile_GetList folder_query, ListFile_GetList folder_query])"
proof -
  from assms(1-4) have first: "get_or_create_folder w (dm, h) = (Some fid, dm1, h1 @ [ListFile_GetList folder_query])"
    by (simp add: get_or_create_folder_def del: do_calls.simps)
  from get_drive_Some_eq [OF assms(1)]
  have "get_drive w (dm1, h1 @ [ListFile_GetList folder_query]) = (Some d, dm1, h1 @ [ListFile_GetList folder_query])" .
  with assms(5-7) have "get_or_create_folder w (dm1, h1 @ [ListFile_GetList folder_query]) =
           (Some fid, dm1, h1 @ [ListFile_GetList folder_query, ListFile_GetList folder_query])"
    by (simp add: get_or_create_folder_def del: do_calls.simps)
  with first show ?thesis by simp
qed

text \<open>Claim C7, an instance: the service that always reports the folder \<open>F1\<close>.\<close>

theorem folder_resolution_twice_witness:
  "get_or_create_folder world_ok (connected, []) =
     (Some ''F1'', connected, [ListFile_GetList folder_query]) \<and>
   get_or_create_folder world_ok (connected, [ListFile_GetList folder_query]) =
     (Some ''F1'', connected, [ListFile_GetList folder_query, ListFile_GetList folder_query])"
proof -
  have g: "get_drive world_ok (connected, []) = (Some GoogleDrive, connected, [])"
    by (simp add: get_drive_def connected_def)
  from folder_resolution_twice [OF g, where f = "[(''id'', ''F1''), (''title'', ''PhotoBooth'')]"
      and fs = "[]" and fid = "''F1''" and f' = "[(''id'', ''F1''), (''title'', ''PhotoBooth'')]"
      and fs' = "[]"]
  show ?thesis by (simp add: world_ok_def)
qed

text \<open>
  Claim C8. When \<^verbatim>\<open>os.path.exists\<close> is false for the path at the moment
  \<^verbatim>\<open>upload_and_get_link\<close> checks it, the result is \<^verbatim>\<open>None\<close>, returned as a value.
  Manager and history are then exactly what \<open>get_drive\<close> left: the handle was asked for
  before the check, and no folder query, no \<^verbatim>\<open>CreateFile\<close>, no upload and no permission
  call follows it.
\<close>

theorem upload_and_get_link_missing_file:
  assumes "get_drive w (dm, h) = (d, dm1, h1)"
    and "\<not> path_exists w h1 file_path"
  shows "upload_and_get_link w file_path (dm, h) = (None, dm1, h1)"
  using assms by (simp add: upload_and_get_link_def del: do_calls.simps)

text \<open>Claim C8, an instance: a connected session and a disk on which no file exists.\<close>

theorem upload_and_get_link_missing_file_witness:
  "upload_and_get_link world_no_file ''final_images/photo_1_cutout.png'' (connected, []) =
     (None, connected, [])"
proof -
  have g: "get_drive world_no_file (connected, []) = (Some GoogleDrive, connected, [])"
    by (simp add: get_drive_def connected_def)
  have n: "\<not> path_exists world_no_file [] ''final_images/photo_1_cutout.png''"
    by (simp add: world_no_file_def)
  from upload_and_get_link_missing_file [OF g n] show ?thesis .
qed




subsection \<open>The queue and the worker\<close>

text \<open>
  Claim C2. While \<open>is_connected\<close> is false, \<^verbatim>\<open>queue_upload\<close> returns the uploader as it
  was: the queue and everything else are unchanged. The function has no exceptional
  result.
\<close>

theorem queue_upload_disconnected:
  "\<not> is_connected (manager s) \<Longrightarrow> queue_upload file_path s = s"
  by (simp add: queue_upload_def)

text \<open>Claim C2, an instance: an idle uploader whose manager is not connected.\<close>

theorem queue_upload_disconnected_witness:
  "\<not> is_connected disconnected \<and>
   upload_queue (queue_upload ''photo_0.png'' (idle_uploader\<lparr>manager := disconnected\<rparr>)) = []"
proof -
  have 1: "\<not> is_connected (manager (idle_uploader\<lparr>manager := disconnected\<rparr>))"
    by (simp add: disconnected_def is_connected_def)
  from queue_upload_disconnected [OF 1, of "''photo_0.png''"] show ?thesis
    by (simp add: idle_uploader_def disconnected_def is_connected_def)
qed

text \<open>A connected manager stays as it is while the worker uploads.\<close>

lemma get_or_create_folder_connected:
  "is_connected dm \<Longrightarrow> fst (snd (get_or_create_folder w (dm, h))) = dm"
  by (simp add: get_or_create_folder_def get_drive_connected del: do_calls.simps split: option.splits list.splits prod.splits)

lemma upload_file_connected:
  "is_connected dm \<Longrightarrow> fst (snd (upload_file w p (dm, h))) = dm"
proof -
  assume c: "is_connected dm"
  obtain f dm2 h2 where g: "get_or_create_folder w (dm, h) = (f, dm2, h2)"
    by (cases "get_or_create_folder w (dm, h)") auto
  with get_or_create_folder_connected [OF c, of w h] have "dm2 = dm" by simp
  with c g show ?thesis
    by (simp add: upload_file_def get_drive_connected del: do_calls.simps split: option.splits prod.splits)
qed

lemma uploaded_paths_append:
  "uploaded_paths (xs @ ys) = uploaded_paths xs @ uploaded_paths ys"
  by (induction xs rule: uploaded_paths.induct) auto

lemma run_append: "run w (as @ bs) s = run w bs (run w as s)"
  by (induction as arbitrary: s) auto

lemma worker_step_manager:
  "is_connected (manager s) \<Longrightarrow> manager (worker_step w s) = manager s"
proof (cases "worker s")
  case (At_upload_file p)
  assume "is_connected (manager s)"
  from upload_file_connected [OF this, of w p "history s"] At_upload_file show ?thesis
    by (auto simp: worker_step_def split: prod.splits)
qed (simp_all add: worker_step_def split: list.splits option.splits)

text \<open>
  The uploads done so far followed by the uploads still pending are the same list before
  and after every step of the worker, and a step of the worker neither brings nor removes a
  poison pill that is on its way.
\<close>

lemma worker_step_bound:
  "uploaded_paths (trace (worker_step w s)) @ pending (worker_step w s) =
   uploaded_paths (trace s) @ pending s"
proof (cases "worker s")
  case At_get
  then show ?thesis
    by (simp add: worker_step_def pending_def in_flight_def uploaded_paths_append
        split: list.splits option.splits)
next
  case (At_upload_file p)
  then show ?thesis
    by (simp add: worker_step_def pending_def in_flight_def uploaded_paths_append split: prod.splits)
next
  case At_task_done
  then show ?thesis
    by (simp add: worker_step_def pending_def in_flight_def uploaded_paths_append)
next
  case Exited
  then show ?thesis by (simp add: worker_step_def)
qed

lemma worker_step_stopping:
  "stopping (worker_step w s) = stopping s"
  by (cases "worker s")
     (auto simp: worker_step_def stopping_def split: list.splits option.splits prod.splits)

lemma worker_step_work:
  "\<not> stopping s \<Longrightarrow> work (worker_step w s) = work s - 1"
  by (cases "worker s")
     (auto simp: worker_step_def stopping_def work_def split: list.splits option.splits prod.splits)

lemma is_path_iff: "is_path x \<longleftrightarrow> x \<noteq> None"
  by (cases x) auto

lemma takeWhile_live: "None \<notin> set q \<Longrightarrow> takeWhile is_path q = q"
proof (induction q)
  case Nil
  then show ?case by simp
next
  case (Cons a q)
  then show ?case by (cases a) auto
qed






lemma join_manager: "is_connected (manager s) \<Longrightarrow> manager (join w k s) = manager s"
  by (induction k arbitrary: s) (auto simp: worker_step_manager)






lemma queue_upload_live:
  assumes "\<not> stopping s" and "is_connected (manager s)"
  shows "\<not> stopping (queue_upload p s) \<and> pending (queue_upload p s) = pending s @ [p] \<and>
         trace (queue_upload p s) = trace s \<and> work (queue_upload p s) = work s + 3 \<and>
         manager (queue_upload p s) = manager s"
proof -
  from assms(1) have n: "None \<notin> set (upload_queue s)" and e: "worker s \<noteq> Exited"
    by (simp_all add: stopping_def)
  from n have "None \<notin> set (upload_queue s @ [Some p])" by simp
  then have "takeWhile is_path (upload_queue s @ [Some p]) = upload_queue s @ [Some p]"
    by (rule takeWhile_live)
  with assms(2) n e show ?thesis
    by (simp add: queue_upload_def stopping_def pending_def in_flight_def work_def takeWhile_live
        del: takeWhile_append takeWhile_eq_all_conv)
qed

lemma do_action_live:
  assumes "\<not> stopping s" and "is_connected (manager s)" and "\<not> is_stop a"
  shows "\<not> stopping (do_action w a s) \<and> is_connected (manager (do_action w a s)) \<and>
         uploaded_paths (trace (do_action w a s)) @ pending (do_action w a s) =
           uploaded_paths (trace s) @ pending s @ enqueued_paths [a] \<and>
         work (do_action w a s) \<le> work s + 3"
proof (cases a)
  case (Queue_upload p)
  with queue_upload_live [OF assms(1,2), of p] assms(2) show ?thesis by simp
next
  case (Stop k)
  with assms(3) show ?thesis by simp
next
  case Worker_step
  with assms(1,2) show ?thesis
    by (simp add: worker_step_bound worker_step_stopping worker_step_manager worker_step_work)
qed

lemma enqueued_paths_Cons: "enqueued_paths (a # as) = enqueued_paths [a] @ enqueued_paths as"
  by (cases a) auto

lemma run_live:
  assumes "\<not> stopping s" and "is_connected (manager s)" and "\<forall>a\<in>set sched. \<not> is_stop a"
  shows "\<not> stopping (run w sched s) \<and> is_connected (manager (run w sched s)) \<and>
         uploaded_paths (trace (run w sched s)) @ pending (run w sched s) =
           uploaded_paths (trace s) @ pending s @ enqueued_paths sched \<and>
         work (run w sched s) \<le> work s + 3 * length sched"
  using assms
proof (induction sched arbitrary: s)
  case Nil
  then show ?case by simp
next
  case (Cons a sched)
  from Cons.prems have na: "\<not> is_stop a" and ns: "\<forall>a\<in>set sched. \<not> is_stop a" by simp_all
  note st = do_action_live [OF Cons.prems(1,2) na, of w]
  from st have 1: "\<not> stopping (do_action w a s)" and 2: "is_connected (manager (do_action w a s))"
    by simp_all
  note ih = Cons.IH [OF 1 2 ns]
  from ih st show ?case
    by (simp add: enqueued_paths_Cons [of a sched])
qed

lemma drain:
  assumes "\<not> stopping s" and "work s \<le> n"
  shows "upload_queue (run w (replicate n Worker_step) s) = [] \<and>
         worker (run w (replicate n Worker_step) s) = At_get \<and>
         uploaded_paths (trace (run w (replicate n Worker_step) s)) = uploaded_paths (trace s) @ pending s"
  using assms
proof (induction n arbitrary: s)
  case 0
  then have "upload_queue s = []" and "worker s = At_get"
    by (auto simp: work_def stopping_def split: worker_pc.splits)
  then show ?case by (simp add: pending_def in_flight_def)
next
  case (Suc n)
  from Suc.prems have 1: "\<not> stopping (worker_step w s)" and 2: "work (worker_step w s) \<le> n"
    by (simp_all add: worker_step_stopping worker_step_work)
  from Suc.IH [OF 1 2] show ?case by (simp add: worker_step_bound)
qed

lemma AsyncUploader_init_idle:
  "upload_queue (AsyncUploader_init w (dm, h)) = [] \<and> worker (AsyncUploader_init w (dm, h)) = At_get \<and>
   trace (AsyncUploader_init w (dm, h)) = [] \<and> \<not> stopping (AsyncUploader_init w (dm, h)) \<and>
   work (AsyncUploader_init w (dm, h)) = 0 \<and> pending (AsyncUploader_init w (dm, h)) = []"
  by (simp add: AsyncUploader_init_def stopping_def work_def pending_def in_flight_def split: prod.splits)

text \<open>
  Claim C1. The session is connected, no poison pill is in the queue and the worker is
  in its loop (a new uploader with a connected session is such a state). The main thread
  calls \<^verbatim>\<open>queue_upload\<close> any number of times, interleaved in any way with steps of the
  worker, and does not call \<^verbatim>\<open>stop\<close>. Then at every moment the arguments of the calls of
  \<^verbatim>\<open>_upload_file\<close> so far are a prefix of the earlier uploads, then the paths that were
  pending at the start, then the enqueued paths in enqueue order; and once the worker has
  had enough further steps, they are exactly that list.
\<close>

theorem uploads_in_enqueue_order:
  assumes "is_connected (manager s)" and "\<not> stopping s"
    and "\<forall>a\<in>set sched. \<not> is_stop a"
    and "work s + 3 * length sched \<le> n"
  shows "prefix (uploaded_paths (trace (run w sched s)))
           (uploaded_paths (trace s) @ pending s @ enqueued_paths sched) \<and>
         uploaded_paths (trace (run w (sched @ replicate n Worker_step) s)) =
           uploaded_paths (trace s) @ pending s @ enqueued_paths sched"
proof -
  note rl = run_live [OF assms(2,1,3), of w]
  from rl have "prefix (uploaded_paths (trace (run w sched s)))
           (uploaded_paths (trace s) @ pending s @ enqueued_paths sched)"
    by (metis prefixI)
  moreover from rl assms(4) have "work (run w sched s) \<le> n" by simp
  with rl have "uploaded_paths (trace (run w (replicate n Worker_step) (run w sched s))) =
      uploaded_paths (trace (run w sched s)) @ pending (run w sched s)"
    using drain [of "run w sched s" n w] by simp
  with rl have "uploaded_paths (trace (run w (sched @ replicate n Worker_step) s)) =
           uploaded_paths (trace s) @ pending s @ enqueued_paths sched"
    by (simp add: run_append)
  ultimately show ?thesis by simp
qed

text \<open>
  Claim C1, an instance: two photos enqueued around a step of the worker, then nine steps
  of the worker.
\<close>

theorem uploads_in_enqueue_order_witness:
  "uploaded_paths (trace (run world_ok
       ([Queue_upload ''photo_0.png'', Worker_step, Queue_upload ''photo_1.png''] @
        replicate 9 Worker_step) idle_uploader)) =
     [''photo_0.png'', ''photo_1.png'']"
proof -
  have 1: "is_connected (manager idle_uploader)"
    by (simp add: idle_uploader_def connected_def is_connected_def)
  have 2: "\<not> stopping idle_uploader"
    by (simp add: idle_uploader_def stopping_def)
  have 3: "\<forall>a\<in>set [Queue_upload ''photo_0.png'', Worker_step, Queue_upload ''photo_1.png'']. \<not> is_stop a"
    by simp
  have 4: "work idle_uploader +
      3 * length [Queue_upload ''photo_0.png'', Worker_step, Queue_upload ''photo_1.png''] \<le> 9"
    by (simp add: idle_uploader_def work_def)
  have 5: "uploaded_paths (trace idle_uploader) @ pending idle_uploader @
      enqueued_paths [Queue_upload ''photo_0.png'', Worker_step, Queue_upload ''photo_1.png''] =
      [''photo_0.png'', ''photo_1.png'']"
    by (simp add: idle_uploader_def pending_def in_flight_def)
  from uploads_in_enqueue_order [OF 1 2 3 4, of world_ok, THEN conjunct2] 5
  show ?thesis by (rule trans)
qed





subsection \<open>The names of the image files\<close>


























end
